theory Spec2Isabelle
  imports Main "HOL-Library.Word"
begin

section \<open>The RCU-protected book list of \<^verbatim>\<open>src/rcu/list_rcu.c\<close>\<close>

text \<open>
  The module keeps one global \<^verbatim>\<open>struct library my_library\<close>: a kernel list of
  \<^verbatim>\<open>struct book\<close> nodes, each obtained from \<^verbatim>\<open>kzalloc\<close> and given back with
  \<^verbatim>\<open>kfree\<close>. The embedding is sequential: one call runs at a time, so
  \<^verbatim>\<open>spin_lock\<close>/\<^verbatim>\<open>spin_unlock\<close>, \<^verbatim>\<open>rcu_read_lock\<close>/\<^verbatim>\<open>rcu_read_unlock\<close> and
  \<^verbatim>\<open>synchronize_rcu\<close> do not change the state, and the \<^verbatim>\<open>pr_info\<close>/\<^verbatim>\<open>pr_err\<close>
  log lines are left out.
\<close>

subsection \<open>Data model\<close>

text \<open>A C \<^verbatim>\<open>int\<close> is a 32-bit word; \<^verbatim>\<open>-EINVAL\<close> is the word \<open>- 22\<close>.\<close>

type_synonym cint = "32 word"

text \<open>A non-null pointer to a \<^verbatim>\<open>struct book\<close>; the null pointer is \<open>None\<close>.\<close>

type_synonym addr = nat

text \<open>
  \<^verbatim>\<open>struct book\<close>. The fields \<^verbatim>\<open>node\<close> and \<^verbatim>\<open>rcu\<close> are linkage: the position of
  the node is its position in \<open>books\<close> below, and a registered \<^verbatim>\<open>rcu\<close> head is an
  entry of \<open>rcu_cbs\<close>. The two \<^verbatim>\<open>char[64]\<close> arrays are lists of 64 characters.
\<close>

record book =
  book_id :: cint
  name :: string
  author :: string
  borrow :: cint

text \<open>
  The state the functions work on:
  \<^item> \<open>heap\<close>: the blocks handed out by \<^verbatim>\<open>kzalloc\<close> and not yet given to \<^verbatim>\<open>kfree\<close>,
    with their contents;
  \<^item> \<open>books\<close>: \<^verbatim>\<open>my_library.books\<close>, the nodes in the order in which
    \<^verbatim>\<open>list_for_each_entry_rcu\<close> visits them (from \<^verbatim>\<open>head->next\<close> on);
  \<^item> \<open>rcu_cbs\<close>: the blocks passed to \<^verbatim>\<open>call_rcu\<close> with
    \<^verbatim>\<open>book_reclaim_callback\<close>, whose callback has not run yet.
\<close>

record library =
  heap :: "addr \<rightharpoonup> book"
  books :: "addr list"
  rcu_cbs :: "addr list"

definition ENOMEM :: cint where
  "ENOMEM = 12"

definition EINVAL :: cint where
  "EINVAL = 22"

subsection \<open>Kernel primitives\<close>

text \<open>
  \<^verbatim>\<open>kzalloc\<close> either fails (the caller sees \<^verbatim>\<open>NULL\<close>) or returns a block that is
  not in use, filled with zero bytes. Which of the two happens, and which block it
  is, is decided by the allocator: the functions below take the outcome of their
  one \<^verbatim>\<open>kzalloc\<close> call as the argument \<open>new_book\<close> (\<open>None\<close> for \<^verbatim>\<open>NULL\<close>), and
  \<open>kzalloc\<close> records the effect of a successful call.
\<close>

definition zero_book :: book where
  "zero_book = \<lparr>book_id = 0, name = replicate 64 (CHR 0x00),
                author = replicate 64 (CHR 0x00), borrow = 0\<rparr>"

definition kzalloc :: "addr \<Rightarrow> library \<Rightarrow> library" where
  "kzalloc p s = s\<lparr>heap := (heap s)(p \<mapsto> zero_book)\<rparr>"

definition kfree :: "addr \<Rightarrow> library \<Rightarrow> library" where
  "kfree p s = s\<lparr>heap := (heap s)(p := None)\<rparr>"

text \<open>
  \<^verbatim>\<open>strncpy(dest, src, n)\<close>: the characters of \<open>src\<close> up to its terminating NUL,
  cut at \<open>n\<close>, and padded with NUL to exactly \<open>n\<close> characters.
\<close>

definition strncpy :: "string \<Rightarrow> nat \<Rightarrow> string" where
  "strncpy src n = take n (takeWhile (\<lambda>c. c \<noteq> CHR 0x00) src @ replicate n (CHR 0x00))"

text \<open>
  The list primitives of \<^verbatim>\<open>linux/rculist.h\<close>, on the sequence of nodes:
  \<^verbatim>\<open>list_add_rcu(new, head)\<close> links \<open>new\<close> between \<open>head\<close> and \<^verbatim>\<open>head->next\<close>,
  \<^verbatim>\<open>list_replace_rcu(old, new)\<close> gives \<open>new\<close> the neighbours of \<open>old\<close>, and
  \<^verbatim>\<open>list_del_rcu(entry)\<close> links the neighbours of \<open>entry\<close> to each other.
\<close>

definition list_add_rcu :: "addr \<Rightarrow> library \<Rightarrow> library" where
  "list_add_rcu new s = s\<lparr>books := new # books s\<rparr>"

definition list_replace_rcu :: "addr \<Rightarrow> addr \<Rightarrow> library \<Rightarrow> library" where
  "list_replace_rcu old new s = s\<lparr>books := map (\<lambda>q. if q = old then new else q) (books s)\<rparr>"

definition list_del_rcu :: "addr \<Rightarrow> library \<Rightarrow> library" where
  "list_del_rcu entry s = s\<lparr>books := remove1 entry (books s)\<rparr>"

text \<open>
  \<^verbatim>\<open>call_rcu(&b->rcu, book_reclaim_callback)\<close> queues the block; the callback,
  run by the RCU core after a grace period, frees it. \<^verbatim>\<open>synchronize_rcu()\<close>
  waits for the readers in flight, of which a sequential run has none.
\<close>

definition call_rcu :: "addr \<Rightarrow> library \<Rightarrow> library" where
  "call_rcu p s = s\<lparr>rcu_cbs := rcu_cbs s @ [p]\<rparr>"

definition synchronize_rcu :: "library \<Rightarrow> library" where
  "synchronize_rcu s = s"

definition book_reclaim_callback :: "addr \<Rightarrow> library \<Rightarrow> library" where
  "book_reclaim_callback b s = kfree b s"

subsection \<open>The operations\<close>

text \<open>
  The loop shared by the four searching functions,
  \<^verbatim>\<open>list_for_each_entry_rcu(b, &my_library.books, node) { if (b->id == id) ... }\<close>:
  it reads \<^verbatim>\<open>b->id\<close> of each node in turn and stops at the first match. The
  outer \<open>None\<close> is a read through a pointer to a block that is not allocated; the
  inner option is the node found (\<open>None\<close> when the loop runs to the end).
\<close>

fun find_book :: "(addr \<rightharpoonup> book) \<Rightarrow> addr list \<Rightarrow> cint \<Rightarrow> addr option option" where
  "find_book h [] bid = Some None"
| "find_book h (b # bs) bid =
     (case h b of
        None \<Rightarrow> None
      | Some r \<Rightarrow> if book_id r = bid then Some (Some b) else find_book h bs bid)"

text \<open>\<^verbatim>\<open>add_book(id, name, author)\<close>; \<open>new_book\<close> is what \<^verbatim>\<open>kzalloc\<close> returned.\<close>

definition add_book :: "addr option \<Rightarrow> cint \<Rightarrow> string \<Rightarrow> string \<Rightarrow> library \<Rightarrow> cint \<times> library" where
  "add_book new_book bid bname bauthor s =
     (case new_book of
        None \<Rightarrow> (- ENOMEM, s)
      | Some p \<Rightarrow>
          let s1 = kzalloc p s;
              s2 = s1\<lparr>heap := (heap s1)(p \<mapsto>
                     zero_book\<lparr>book_id := bid, name := strncpy bname 64,
                               author := strncpy bauthor 64, borrow := 1\<rparr>)\<rparr>
          in (0, list_add_rcu p s2))"

text \<open>
  \<^verbatim>\<open>update_book(id, async, borrow)\<close>; \<open>new_b\<close> is what \<^verbatim>\<open>kzalloc\<close> returns if the
  function gets as far as calling it. The result \<open>None\<close> is a read of a block that
  is not allocated. In the last branch \<open>r'\<close> is what \<^verbatim>\<open>memcpy\<close> reads from \<^verbatim>\<open>*old_b\<close>
  (after the allocation), \<open>s2\<close> is the state after \<^verbatim>\<open>memcpy\<close> and
  \<^verbatim>\<open>new_b->borrow = borrow\<close>, and \<open>s3\<close> the state after \<^verbatim>\<open>list_replace_rcu\<close>. Both
  failures before the allocation return \<^verbatim>\<open>-EINVAL\<close>.
\<close>

definition update_book ::
  "addr option \<Rightarrow> cint \<Rightarrow> cint \<Rightarrow> cint \<Rightarrow> library \<Rightarrow> (cint \<times> library) option" where
  "update_book new_b bid async bborrow s =
     (case find_book (heap s) (books s) bid of
        None \<Rightarrow> None
      | Some None \<Rightarrow> Some (- EINVAL, s)
      | Some (Some old_b) \<Rightarrow>
          (case heap s old_b of
             None \<Rightarrow> None
           | Some r \<Rightarrow>
               if borrow r = bborrow then Some (- EINVAL, s)
               else
                 (case new_b of
                    None \<Rightarrow> Some (- ENOMEM, s)
                  | Some p \<Rightarrow>
                      (case heap (kzalloc p s) old_b of
                         None \<Rightarrow> None
                       | Some r' \<Rightarrow>
                           let s1 = kzalloc p s;
                               s2 = s1\<lparr>heap := (heap s1)(p \<mapsto> r'\<lparr>borrow := bborrow\<rparr>)\<rparr>;
                               s3 = list_replace_rcu old_b p s2
                           in Some (0, if async \<noteq> 0 then call_rcu old_b s3
                                       else kfree old_b (synchronize_rcu s3))))))"

text \<open>\<^verbatim>\<open>book_is_borrow(id)\<close>: the \<^verbatim>\<open>borrow\<close> field of the first match, or \<open>- 1\<close>.\<close>

definition book_is_borrow :: "cint \<Rightarrow> library \<Rightarrow> cint option" where
  "book_is_borrow bid s =
     (case find_book (heap s) (books s) bid of
        None \<Rightarrow> None
      | Some None \<Rightarrow> Some (- 1)
      | Some (Some b) \<Rightarrow> map_option borrow (heap s b))"

text \<open>\<^verbatim>\<open>delete_book(id, async)\<close>.\<close>

definition delete_book :: "cint \<Rightarrow> cint \<Rightarrow> library \<Rightarrow> (cint \<times> library) option" where
  "delete_book bid async s =
     (case find_book (heap s) (books s) bid of
        None \<Rightarrow> None
      | Some None \<Rightarrow> Some (- 1, s)
      | Some (Some b) \<Rightarrow>
          let s1 = list_del_rcu b s
          in Some (0, if async \<noteq> 0 then call_rcu b s1
                      else kfree b (synchronize_rcu s1)))"

text \<open>
  \<^verbatim>\<open>print_book(id)\<close> returns nothing; the model returns the record whose fields
  the \<^verbatim>\<open>pr_info\<close> line prints (inner \<open>None\<close>: the "is not exist" line).
\<close>

definition print_book :: "cint \<Rightarrow> library \<Rightarrow> book option option" where
  "print_book bid s =
     (case find_book (heap s) (books s) bid of
        None \<Rightarrow> None
      | Some None \<Rightarrow> Some None
      | Some (Some b) \<Rightarrow> map_option Some (heap s b))"

text \<open>\<^verbatim>\<open>list_rcu_init\<close>: \<^verbatim>\<open>INIT_LIST_HEAD\<close> on a module with no block allocated.\<close>

definition list_rcu_init :: library where
  "list_rcu_init = \<lparr>heap = Map.empty, books = [], rcu_cbs = []\<rparr>"

subsection \<open>Observations and invariants\<close>

text \<open>
  A full traversal: the records of the nodes of \<open>books\<close>, in order (\<open>None\<close> if a
  node is not allocated).
\<close>

fun traverse :: "(addr \<rightharpoonup> book) \<Rightarrow> addr list \<Rightarrow> book list option" where
  "traverse h [] = Some []"
| "traverse h (b # bs) =
     (case h b of
        None \<Rightarrow> None
      | Some r \<Rightarrow> map_option ((#) r) (traverse h bs))"

definition published :: "library \<Rightarrow> book list option" where
  "published s = traverse (heap s) (books s)"

text \<open>
  The list is well formed: no node is linked twice and every linked node is an
  allocated block.
\<close>

definition lib_inv :: "library \<Rightarrow> bool" where
  "lib_inv s \<longleftrightarrow> distinct (books s) \<and> list_all (\<lambda>b. heap s b \<noteq> None) (books s)"

text \<open>The allocator returns \<^verbatim>\<open>NULL\<close> or a block that was not in use.\<close>

definition fresh :: "addr option \<Rightarrow> library \<Rightarrow> bool" where
  "fresh new s \<longleftrightarrow> (case new of None \<Rightarrow> True | Some p \<Rightarrow> heap s p = None)"

text \<open>At most one published record has a given id.\<close>

definition unique_ids :: "library \<Rightarrow> bool" where
  "unique_ids s \<longleftrightarrow>
     (case published s of None \<Rightarrow> False | Some rs \<Rightarrow> distinct (map book_id rs))"

text \<open>
  The first calls of \<^verbatim>\<open>test_example\<close>, on the blocks 1 and 2: \<open>lib0\<close> holds book 0,
  \<open>lib01\<close> books 0 and 1, \<open>lib00\<close> is \<open>lib0\<close> after a second \<^verbatim>\<open>add_book(0, ...)\<close>, and
  \<open>lib100\<close> is \<open>lib00\<close> after \<^verbatim>\<open>add_book(1, ...)\<close> on block 3.
\<close>

definition lib0 :: library where
  "lib0 = snd (add_book (Some 1) 0 ''A journey of linux kernel'' ''Tom Hoter'' list_rcu_init)"

definition lib01 :: library where
  "lib01 = snd (add_book (Some 2) 1 ''Inside Linux Kernel'' ''Steve Jobs'' lib0)"

definition lib00 :: library where
  "lib00 = snd (add_book (Some 2) 0 ''Inside Linux Kernel'' ''Steve Jobs'' lib0)"

definition lib100 :: library where
  "lib100 = snd (add_book (Some 3) 1 ''Inside Linux Kernel'' ''Steve Jobs'' lib00)"

subsection \<open>Traversals and the search loop\<close>

lemma traverse_iff: "traverse h ps = Some rs \<longleftrightarrow> map h ps = map Some rs"
  by (induction ps arbitrary: rs) (auto split: option.splits simp: Cons_eq_map_conv)

lemma traverse_eq_append:
  "traverse h ps = Some (rs1 @ rs2) \<longleftrightarrow>
     (\<exists>ps1 ps2. ps = ps1 @ ps2 \<and> traverse h ps1 = Some rs1 \<and> traverse h ps2 = Some rs2)"
proof -
  have "map h ps = map Some rs1 @ map Some rs2 \<longleftrightarrow>
        (\<exists>ps1 ps2. ps = ps1 @ ps2 \<and> map Some rs1 = map h ps1 \<and> map Some rs2 = map h ps2)"
    by (rule map_eq_append_conv)
  then show ?thesis
    unfolding traverse_iff map_append by (simp add: eq_commute [of "map h _" "map Some _"])
qed

lemma traverse_eq_Cons:
  "traverse h ps = Some (r # rs) \<longleftrightarrow>
     (\<exists>p ps'. ps = p # ps' \<and> h p = Some r \<and> traverse h ps' = Some rs)"
  by (cases ps) (auto split: option.splits)

lemma traverse_cong:
  "(\<And>p. p \<in> set ps \<Longrightarrow> h' p = h p) \<Longrightarrow> traverse h' ps = traverse h ps"
  by (induction ps) (auto split: option.splits)

lemma traverse_total:
  "list_all (\<lambda>b. h b \<noteq> None) ps \<Longrightarrow> \<exists>rs. traverse h ps = Some rs"
  by (induction ps) auto

lemma traverse_allocated:
  "traverse h ps = Some rs \<Longrightarrow> list_all (\<lambda>b. h b \<noteq> None) ps"
  by (induction ps arbitrary: rs) (auto split: option.splits)

lemma find_book_skip:
  "traverse h ps = Some rs \<Longrightarrow> bid \<notin> book_id ` set rs \<Longrightarrow>
   find_book h (ps @ qs) bid = find_book h qs bid"
  by (induction ps arbitrary: rs) (auto split: option.splits)

lemma find_book_absent:
  "traverse h ps = Some rs \<Longrightarrow> bid \<notin> book_id ` set rs \<Longrightarrow> find_book h ps bid = Some None"
  using find_book_skip [of h ps rs bid "[]"] by simp

lemma find_book_first:
  assumes "traverse h ps = Some (pre @ r # post)" "book_id r = bid" "bid \<notin> book_id ` set pre"
  shows "\<exists>ps1 b ps2. ps = ps1 @ b # ps2 \<and> traverse h ps1 = Some pre \<and> h b = Some r \<and>
           traverse h ps2 = Some post \<and> find_book h ps bid = Some (Some b)"
proof -
  from assms(1) obtain ps1 b ps2 where
    ps: "ps = ps1 @ b # ps2" and t1: "traverse h ps1 = Some pre" and hb: "h b = Some r"
    and t2: "traverse h ps2 = Some post"
    by (auto simp: traverse_eq_append traverse_eq_Cons)
  have "find_book h ps bid = find_book h (b # ps2) bid"
    unfolding ps using t1 assms(3) by (rule find_book_skip)
  also have "\<dots> = Some (Some b)" using hb assms(2) by simp
  finally show ?thesis using ps t1 hb t2 by blast
qed

lemma find_book_cases:
  assumes "traverse h ps = Some rs"
  shows "(bid \<notin> book_id ` set rs \<and> find_book h ps bid = Some None) \<or>
         (\<exists>pre r post. rs = pre @ r # post \<and> book_id r = bid \<and> bid \<notin> book_id ` set pre)"
proof (cases "bid \<in> book_id ` set rs")
  case False
  then show ?thesis using assms by (simp add: find_book_absent)
next
  case True
  then obtain r where "r \<in> set rs" "book_id r = bid" by auto
  then have "\<exists>x\<in>set rs. book_id x = bid" by blast
  from split_list_first_prop [OF this] obtain pre r post where
    "rs = pre @ r # post" "book_id r = bid" "\<forall>y\<in>set pre. book_id y \<noteq> bid" by blast
  then have "rs = pre @ r # post \<and> book_id r = bid \<and> bid \<notin> book_id ` set pre" by auto
  then show ?thesis by blast
qed

subsection \<open>Effect of each operation\<close>

lemma lib_inv_published: "lib_inv s \<Longrightarrow> \<exists>rs. published s = Some rs"
  by (simp add: lib_inv_def published_def traverse_total)

lemma published_allocated:
  "published s = Some rs \<Longrightarrow> heap s p = None \<Longrightarrow> p \<notin> set (books s)"
proof
  assume "published s = Some rs" "heap s p = None" "p \<in> set (books s)"
  moreover from this(1) have "list_all (\<lambda>b. heap s b \<noteq> None) (books s)"
    unfolding published_def by (rule traverse_allocated)
  ultimately have "heap s p \<noteq> None" "heap s p = None"
    unfolding list_all_iff by blast+
  then show False by simp
qed

lemma traverse_length: "traverse h ps = Some rs \<Longrightarrow> length ps = length rs"
  unfolding traverse_iff by (drule map_eq_imp_length_eq) simp

lemma traverse_appendI:
  "traverse h ps = Some rs1 \<Longrightarrow> traverse h qs = Some rs2 \<Longrightarrow>
   traverse h (ps @ qs) = Some (rs1 @ rs2)"
  by (simp add: traverse_iff)

lemma traverse_ConsI:
  "h p = Some r \<Longrightarrow> traverse h ps = Some rs \<Longrightarrow> traverse h (p # ps) = Some (r # rs)"
  by simp

lemma replace_other: "b \<notin> set ps \<Longrightarrow> map (\<lambda>q. if q = b then p else q) ps = ps"
  by (induction ps) auto

lemma replace_middle:
  "b \<notin> set ps1 \<Longrightarrow> b \<notin> set ps2 \<Longrightarrow>
   map (\<lambda>q. if q = b then p else q) (ps1 @ b # ps2) = ps1 @ p # ps2"
  by (simp add: replace_other)

lemma remove1_middle: "b \<notin> set ps1 \<Longrightarrow> remove1 b (ps1 @ b # ps2) = ps1 @ ps2"
  by (simp add: remove1_append)

lemma add_book_ok:
  assumes inv: "lib_inv s" and pub: "published s = Some rs" and new: "heap s p = None"
  shows "\<exists>s'. add_book (Some p) bid bname bauthor s = (0, s') \<and>
           published s' = Some (\<lparr>book_id = bid, name = strncpy bname 64,
                                  author = strncpy bauthor 64, borrow = 1\<rparr> # rs) \<and>
           books s' = p # books s \<and> lib_inv s'"
proof -
  let ?r = "\<lparr>book_id = bid, name = strncpy bname 64, author = strncpy bauthor 64, borrow = 1\<rparr>"
  let ?s' = "s\<lparr>heap := (heap s)(p \<mapsto> ?r), books := p # books s\<rparr>"
  have p: "p \<notin> set (books s)" using pub new by (rule published_allocated)
  have run: "add_book (Some p) bid bname bauthor s = (0, ?s')"
    by (simp add: add_book_def kzalloc_def list_add_rcu_def zero_book_def)
  have "traverse ((heap s)(p \<mapsto> ?r)) (books s) = traverse (heap s) (books s)"
    using p by (intro traverse_cong) auto
  then have pub': "published ?s' = Some (?r # rs)"
    using pub by (simp add: published_def)
  have "lib_inv ?s'"
    using inv p by (auto simp: lib_inv_def list_all_iff)
  with run pub' show ?thesis by simp
qed

lemma update_book_ok:
  assumes inv: "lib_inv s" and pub: "published s = Some (pre @ r # post)"
    and r: "book_id r = bid" and pre: "bid \<notin> book_id ` set pre"
    and ch: "borrow r \<noteq> bborrow" and new: "heap s p = None"
  shows "\<exists>s' ps1 b ps2. update_book (Some p) bid async bborrow s = Some (0, s') \<and>
           published s' = Some (pre @ r\<lparr>borrow := bborrow\<rparr> # post) \<and>
           books s = ps1 @ b # ps2 \<and> length ps1 = length pre \<and> p \<notin> set (books s) \<and>
           books s' = ps1 @ p # ps2 \<and> lib_inv s'"
proof -
  from find_book_first [OF pub [unfolded published_def] r pre]
  obtain ps1 b ps2 where bs: "books s = ps1 @ b # ps2"
    and t1: "traverse (heap s) ps1 = Some pre" and hb: "heap s b = Some r"
    and t2: "traverse (heap s) ps2 = Some post"
    and f: "find_book (heap s) (books s) bid = Some (Some b)" by blast
  have p: "p \<notin> set (books s)" using pub new by (rule published_allocated)
  have d: "b \<notin> set ps1" "b \<notin> set ps2" "distinct ps1" "distinct ps2" "set ps1 \<inter> set ps2 = {}"
    using inv bs by (auto simp: lib_inv_def)
  have pb: "p \<noteq> b" using p bs by auto
  let ?r' = "r\<lparr>borrow := bborrow\<rparr>"
  let ?h1 = "(heap s)(p \<mapsto> ?r')"
  let ?h = "if async \<noteq> 0 then ?h1 else ?h1(b := None)"
  let ?s' = "s\<lparr>heap := ?h, books := ps1 @ p # ps2,
                rcu_cbs := (if async \<noteq> 0 then rcu_cbs s @ [b] else rcu_cbs s)\<rparr>"
  have k: "heap (kzalloc p s) b = Some r"
    using hb pb by (simp add: kzalloc_def)
  have rep: "map (\<lambda>q. if q = b then p else q) (books s) = ps1 @ p # ps2"
    unfolding bs using d(1,2) by (rule replace_middle)
  have run: "update_book (Some p) bid async bborrow s = Some (0, ?s')"
  proof (cases "async = 0")
    case True
    then show ?thesis
      by (simp add: update_book_def f hb ch k list_replace_rcu_def rep kfree_def
          synchronize_rcu_def) (simp add: kzalloc_def rep)
  next
    case False
    then show ?thesis
      by (simp add: update_book_def f hb ch k list_replace_rcu_def rep call_rcu_def)
        (simp add: kzalloc_def rep)
  qed
  have c1: "traverse ?h ps1 = traverse (heap s) ps1"
    using p d(1) bs by (intro traverse_cong) auto
  have c2: "traverse ?h ps2 = traverse (heap s) ps2"
    using p d(2) bs by (intro traverse_cong) auto
  have hp: "?h p = Some ?r'" using pb by simp
  have "traverse ?h (ps1 @ p # ps2) = Some (pre @ ?r' # post)"
    by (rule traverse_appendI [OF t1 [folded c1] traverse_ConsI [OF hp t2 [folded c2]]])
  then have pub': "published ?s' = Some (pre @ ?r' # post)"
    by (simp add: published_def)
  have a1: "list_all (\<lambda>q. ?h q \<noteq> None) ps1"
    using t1 [folded c1] by (rule traverse_allocated)
  have a2: "list_all (\<lambda>q. ?h q \<noteq> None) ps2"
    using t2 [folded c2] by (rule traverse_allocated)
  have "distinct (ps1 @ p # ps2)" using d p bs by auto
  then have "lib_inv ?s'"
    using a1 a2 hp by (simp add: lib_inv_def)
  moreover have "books ?s' = ps1 @ p # ps2" by simp
  moreover note run pub' bs p traverse_length [OF t1]
  ultimately show ?thesis by blast
qed

lemma delete_book_ok:
  assumes inv: "lib_inv s" and pub: "published s = Some (pre @ r # post)"
    and r: "book_id r = bid" and pre: "bid \<notin> book_id ` set pre"
  shows "\<exists>s' ps1 b ps2. delete_book bid async s = Some (0, s') \<and>
           published s' = Some (pre @ post) \<and>
           books s = ps1 @ b # ps2 \<and> length ps1 = length pre \<and>
           books s' = ps1 @ ps2 \<and> lib_inv s'"
proof -
  from find_book_first [OF pub [unfolded published_def] r pre]
  obtain ps1 b ps2 where bs: "books s = ps1 @ b # ps2"
    and t1: "traverse (heap s) ps1 = Some pre" and hb: "heap s b = Some r"
    and t2: "traverse (heap s) ps2 = Some post"
    and f: "find_book (heap s) (books s) bid = Some (Some b)" by blast
  have d: "b \<notin> set ps1" "b \<notin> set ps2" "distinct (ps1 @ ps2)"
    using inv bs by (auto simp: lib_inv_def)
  let ?h = "if async \<noteq> 0 then heap s else (heap s)(b := None)"
  let ?s' = "s\<lparr>heap := ?h, books := ps1 @ ps2,
                rcu_cbs := (if async \<noteq> 0 then rcu_cbs s @ [b] else rcu_cbs s)\<rparr>"
  have run: "delete_book bid async s = Some (0, ?s')"
    using f d(1)
    by (simp add: delete_book_def list_del_rcu_def call_rcu_def kfree_def
        synchronize_rcu_def bs remove1_middle)
  have c1: "traverse ?h ps1 = traverse (heap s) ps1"
    using d(1) by (intro traverse_cong) auto
  have c2: "traverse ?h ps2 = traverse (heap s) ps2"
    using d(2) by (intro traverse_cong) auto
  have "traverse ?h (ps1 @ ps2) = Some (pre @ post)"
    by (rule traverse_appendI [OF t1 [folded c1] t2 [folded c2]])
  then have pub': "published ?s' = Some (pre @ post)"
    by (simp add: published_def)
  have a1: "list_all (\<lambda>q. ?h q \<noteq> None) ps1"
    using t1 [folded c1] by (rule traverse_allocated)
  have a2: "list_all (\<lambda>q. ?h q \<noteq> None) ps2"
    using t2 [folded c2] by (rule traverse_allocated)
  have "lib_inv ?s'"
    using a1 a2 d(3) by (simp add: lib_inv_def)
  moreover have "books ?s' = ps1 @ ps2" by simp
  moreover note run pub' bs traverse_length [OF t1]
  ultimately show ?thesis by blast
qed

lemma book_is_borrow_first:
  assumes "published s = Some (pre @ r # post)" "book_id r = bid" "bid \<notin> book_id ` set pre"
  shows "book_is_borrow bid s = Some (borrow r)"
  using find_book_first [OF assms(1) [unfolded published_def] assms(2,3)]
  by (auto simp: book_is_borrow_def)

lemma print_book_first:
  assumes "published s = Some (pre @ r # post)" "book_id r = bid" "bid \<notin> book_id ` set pre"
  shows "print_book bid s = Some (Some r)"
  using find_book_first [OF assms(1) [unfolded published_def] assms(2,3)]
  by (auto simp: print_book_def)

lemma absent_results:
  assumes "published s = Some rs" "bid \<notin> book_id ` set rs"
  shows "book_is_borrow bid s = Some (- 1)" "print_book bid s = Some None"
    "delete_book bid async s = Some (- 1, s)"
    "update_book new_b bid async bborrow s = Some (- EINVAL, s)"
  using find_book_absent [OF assms(1) [unfolded published_def] assms(2)]
  by (simp_all add: book_is_borrow_def print_book_def delete_book_def update_book_def)

lemma update_book_noop:
  assumes "published s = Some (pre @ r # post)" "book_id r = bid" "bid \<notin> book_id ` set pre"
    and "borrow r = bborrow"
  shows "update_book new_b bid async bborrow s = Some (- EINVAL, s)"
  using find_book_first [OF assms(1) [unfolded published_def] assms(2,3)] assms(4)
  by (auto simp: update_book_def)

lemma update_book_nomem:
  assumes "published s = Some (pre @ r # post)" "book_id r = bid" "bid \<notin> book_id ` set pre"
    and "borrow r \<noteq> bborrow"
  shows "update_book None bid async bborrow s = Some (- ENOMEM, s)"
  using find_book_first [OF assms(1) [unfolded published_def] assms(2,3)] assms(4)
  by (auto simp: update_book_def)

lemma find_first: "P r \<Longrightarrow> \<forall>x\<in>set pre. \<not> P x \<Longrightarrow> find P (pre @ r # post) = Some r"
  by (induction pre) auto

lemma find_SomeD_split:
  "find P rs = Some r \<Longrightarrow> \<exists>pre post. rs = pre @ r # post \<and> P r \<and> (\<forall>x\<in>set pre. \<not> P x)"
proof (induction rs)
  case Nil
  then show ?case by simp
next
  case (Cons a rs)
  show ?case
  proof (cases "P a")
    case True
    with Cons.prems have "a # rs = [] @ r # rs \<and> P r \<and> (\<forall>x\<in>set []. \<not> P x)" by simp
    then show ?thesis by blast
  next
    case False
    with Cons.prems have "find P rs = Some r" by simp
    from Cons.IH [OF this] obtain pre post where
      "rs = pre @ r # post" "P r" "\<forall>x\<in>set pre. \<not> P x" by blast
    with False have "a # rs = (a # pre) @ r # post \<and> P r \<and> (\<forall>x\<in>set (a # pre). \<not> P x)"
      by simp
    then show ?thesis by blast
  qed
qed

lemma find_skip_other: "\<not> P r \<Longrightarrow> find P (pre @ r # post) = find P (pre @ post)"
  by (induction pre) auto

lemma book_is_borrow_published:
  assumes "published s = Some rs"
  shows "book_is_borrow bid s =
           Some (case find (\<lambda>r. book_id r = bid) rs of None \<Rightarrow> - 1 | Some r \<Rightarrow> borrow r)"
proof -
  from find_book_cases [OF assms [unfolded published_def], of bid]
  show ?thesis
  proof
    assume a: "bid \<notin> book_id ` set rs \<and> find_book (heap s) (books s) bid = Some None"
    then have "find (\<lambda>r. book_id r = bid) rs = None"
      by (auto simp: find_None_iff)
    with a show ?thesis by (simp add: book_is_borrow_def)
  next
    assume "\<exists>pre r post. rs = pre @ r # post \<and> book_id r = bid \<and> bid \<notin> book_id ` set pre"
    then obtain pre r post where rs: "rs = pre @ r # post" and r: "book_id r = bid"
      and pre: "bid \<notin> book_id ` set pre" by blast
    from pre have "\<forall>x\<in>set pre. book_id x \<noteq> bid" by blast
    with r have "find (\<lambda>r. book_id r = bid) rs = Some r"
      unfolding rs by (rule find_first)
    moreover have "book_is_borrow bid s = Some (borrow r)"
      using assms [unfolded rs] r pre by (rule book_is_borrow_first)
    ultimately show ?thesis by simp
  qed
qed

lemma update_book_value:
  assumes "published s = Some (pre @ r # post)" "book_id r = bid" "bid \<notin> book_id ` set pre"
    and "borrow r \<noteq> bborrow"
  shows "\<exists>s'. update_book (Some p) bid async bborrow s = Some (0, s')"
  using find_book_first [OF assms(1) [unfolded published_def] assms(2,3)] assms(4)
  by (auto simp: update_book_def kzalloc_def Let_def)

lemma lib0_eval:
  "lib_inv lib0" "heap lib0 2 = None" "books lib0 = [1]"
  "map_option (map book_id) (published lib0) = Some [0]"
  "map_option (map borrow) (published lib0) = Some [1]"
  by (simp_all add: lib0_def add_book_def list_rcu_init_def kzalloc_def list_add_rcu_def
      lib_inv_def published_def zero_book_def)

section \<open>The claims\<close>

text \<open>
  Claim C1. A successful \<^verbatim>\<open>update_book(id, async, borrow)\<close> (return value 0) replaces the
  first record \<open>r\<close> with key \<open>id\<close> by a record in a new block \<open>p\<close> that has the
  \<open>book_id\<close>, \<open>name\<close> and \<open>author\<close> of \<open>r\<close> and the requested \<open>borrow\<close>; the new node
  stands where the old node stood (after the same \<open>length pre\<close> nodes), and the
  records before and after it are the same, in the same order.
\<close>

theorem update_book_replaces_in_place:
  assumes inv: "lib_inv s" and new: "fresh new_b s"
    and run: "update_book new_b bid async bborrow s = Some (0, s')"
  shows "\<exists>pre r post ps1 old_b p ps2.
           published s = Some (pre @ r # post) \<and> book_id r = bid \<and> bid \<notin> book_id ` set pre \<and>
           published s' = Some (pre @ r\<lparr>borrow := bborrow\<rparr> # post) \<and>
           books s = ps1 @ old_b # ps2 \<and> length ps1 = length pre \<and>
           new_b = Some p \<and> p \<notin> set (books s) \<and> books s' = ps1 @ p # ps2"
proof -
  from inv obtain rs where pub: "published s = Some rs"
    using lib_inv_published by blast
  from find_book_cases [OF pub [unfolded published_def], of bid]
  show ?thesis
  proof
    assume "bid \<notin> book_id ` set rs \<and> find_book (heap s) (books s) bid = Some None"
    then have "update_book new_b bid async bborrow s = Some (- EINVAL, s)"
      using pub by (simp add: absent_results)
    with run show ?thesis by (simp add: EINVAL_def ENOMEM_def)
  next
    assume "\<exists>pre r post. rs = pre @ r # post \<and> book_id r = bid \<and> bid \<notin> book_id ` set pre"
    then obtain pre r post where rs: "rs = pre @ r # post" and r: "book_id r = bid"
      and pre: "bid \<notin> book_id ` set pre" by blast
    note pub' = pub [unfolded rs]
    have ch: "borrow r \<noteq> bborrow"
    proof
      assume "borrow r = bborrow"
      with pub' r pre have "update_book new_b bid async bborrow s = Some (- EINVAL, s)"
        by (rule update_book_noop)
      with run show False by (simp add: EINVAL_def ENOMEM_def)
    qed
    have "new_b \<noteq> None"
    proof
      assume "new_b = None"
      with update_book_nomem [OF pub' r pre ch, of async] run show False
        by (simp add: EINVAL_def ENOMEM_def)
    qed
    then obtain p where p: "new_b = Some p" by blast
    with new have hp: "heap s p = None" by (simp add: fresh_def)
    from update_book_ok [OF inv pub' r pre ch hp, of async]
    obtain s'' ps1 b ps2 where
      "update_book (Some p) bid async bborrow s = Some (0, s'')"
      "published s'' = Some (pre @ r\<lparr>borrow := bborrow\<rparr> # post)"
      "books s = ps1 @ b # ps2" "length ps1 = length pre" "p \<notin> set (books s)"
      "books s'' = ps1 @ p # ps2" by blast
    moreover from this(1) run p have "s'' = s'" by simp
    ultimately show ?thesis using pub' r pre p by blast
  qed
qed

theorem update_book_replaces_in_place_witness:
  "lib_inv lib100 \<and> fresh (Some 4) lib100 \<and>
   update_book (Some 4) 0 0 0 lib100 =
     Some (0, snd (the (update_book (Some 4) 0 0 0 lib100))) \<and>
   (\<exists>pre r post ps1 old_b p ps2.
      published lib100 = Some (pre @ r # post) \<and> book_id r = 0 \<and> 0 \<notin> book_id ` set pre \<and>
      published (snd (the (update_book (Some 4) 0 0 0 lib100))) =
        Some (pre @ r\<lparr>borrow := 0\<rparr> # post) \<and>
      books lib100 = ps1 @ old_b # ps2 \<and> length ps1 = length pre \<and>
      Some 4 = Some p \<and> p \<notin> set (books lib100) \<and>
      books (snd (the (update_book (Some 4) 0 0 0 lib100))) = ps1 @ p # ps2) \<and>
   published lib100 =
     Some [\<lparr>book_id = 1, name = strncpy ''Inside Linux Kernel'' 64,
             author = strncpy ''Steve Jobs'' 64, borrow = 1\<rparr>,
           \<lparr>book_id = 0, name = strncpy ''Inside Linux Kernel'' 64,
             author = strncpy ''Steve Jobs'' 64, borrow = 1\<rparr>,
           \<lparr>book_id = 0, name = strncpy ''A journey of linux kernel'' 64,
             author = strncpy ''Tom Hoter'' 64, borrow = 1\<rparr>] \<and>
   published (snd (the (update_book (Some 4) 0 0 0 lib100))) =
     Some [\<lparr>book_id = 1, name = strncpy ''Inside Linux Kernel'' 64,
             author = strncpy ''Steve Jobs'' 64, borrow = 1\<rparr>,
           \<lparr>book_id = 0, name = strncpy ''Inside Linux Kernel'' 64,
             author = strncpy ''Steve Jobs'' 64, borrow = 0\<rparr>,
           \<lparr>book_id = 0, name = strncpy ''A journey of linux kernel'' 64,
             author = strncpy ''Tom Hoter'' 64, borrow = 1\<rparr>] \<and>
   books lib100 = [3, 2, 1] \<and>
   books (snd (the (update_book (Some 4) 0 0 0 lib100))) = [3, 4, 1]"
proof -
  note ev = lib100_def lib00_def lib0_def add_book_def list_rcu_init_def kzalloc_def
    list_add_rcu_def update_book_def list_replace_rcu_def kfree_def synchronize_rcu_def
    zero_book_def
  have h1: "lib_inv lib100" by (simp add: ev lib_inv_def)
  have h2: "fresh (Some 4) lib100" by (simp add: ev fresh_def)
  have h3: "update_book (Some 4) 0 0 0 lib100 =
              Some (0, snd (the (update_book (Some 4) 0 0 0 lib100)))"
    by (simp add: ev)
  have c1: "published lib100 =
     Some [\<lparr>book_id = 1, name = strncpy ''Inside Linux Kernel'' 64,
             author = strncpy ''Steve Jobs'' 64, borrow = 1\<rparr>,
           \<lparr>book_id = 0, name = strncpy ''Inside Linux Kernel'' 64,
             author = strncpy ''Steve Jobs'' 64, borrow = 1\<rparr>,
           \<lparr>book_id = 0, name = strncpy ''A journey of linux kernel'' 64,
             author = strncpy ''Tom Hoter'' 64, borrow = 1\<rparr>]"
    by (simp add: ev published_def)
  have c2: "published (snd (the (update_book (Some 4) 0 0 0 lib100))) =
     Some [\<lparr>book_id = 1, name = strncpy ''Inside Linux Kernel'' 64,
             author = strncpy ''Steve Jobs'' 64, borrow = 1\<rparr>,
           \<lparr>book_id = 0, name = strncpy ''Inside Linux Kernel'' 64,
             author = strncpy ''Steve Jobs'' 64, borrow = 0\<rparr>,
           \<lparr>book_id = 0, name = strncpy ''A journey of linux kernel'' 64,
             author = strncpy ''Tom Hoter'' 64, borrow = 1\<rparr>]"
    by (simp add: ev published_def)
  have c3: "books lib100 = [3, 2, 1]" by (simp add: ev)
  have c4: "books (snd (the (update_book (Some 4) 0 0 0 lib100))) = [3, 4, 1]"
    by (simp add: ev)
  from update_book_replaces_in_place [OF h1 h2 h3] h1 h2 h3 c1 c2 c3 c4
  show ?thesis by blast
qed

text \<open>
  Claim C2. If no published record has key \<open>id\<close>, or if the first published record
  with key \<open>id\<close> already has the requested \<open>borrow\<close> value, \<^verbatim>\<open>update_book\<close> returns
  \<^verbatim>\<open>-EINVAL\<close> and the state it returns is the state it was given: the same \<open>heap\<close>
  (nothing allocated, nothing freed), the same \<open>books\<close> (nothing spliced) and the
  same \<open>rcu_cbs\<close> (nothing handed to \<^verbatim>\<open>call_rcu\<close>), whatever \<^verbatim>\<open>kzalloc\<close> would have
  returned.
\<close>

theorem update_book_failure_unchanged:
  assumes "published s = Some rs"
  shows "(bid \<notin> book_id ` set rs \<longrightarrow>
            update_book new_b bid async bborrow s = Some (- EINVAL, s)) \<and>
         (\<forall>r. find (\<lambda>r. book_id r = bid) rs = Some r \<and> borrow r = bborrow \<longrightarrow>
            update_book new_b bid async bborrow s = Some (- EINVAL, s))"
proof (intro conjI allI impI)
  assume "bid \<notin> book_id ` set rs"
  with assms show "update_book new_b bid async bborrow s = Some (- EINVAL, s)"
    by (rule absent_results)
next
  fix r
  assume a: "find (\<lambda>r. book_id r = bid) rs = Some r \<and> borrow r = bborrow"
  then obtain pre post where rs: "rs = pre @ r # post" and r: "book_id r = bid"
    and pre: "\<forall>x\<in>set pre. book_id x \<noteq> bid"
    using find_SomeD_split [of "\<lambda>r. book_id r = bid" rs r] by blast
  from pre have "bid \<notin> book_id ` set pre" by blast
  with assms [unfolded rs] r show "update_book new_b bid async bborrow s = Some (- EINVAL, s)"
    using a by (intro update_book_noop) auto
qed

theorem update_book_failure_unchanged_witness:
  "update_book (Some 2) 5 0 1 lib0 = Some (- EINVAL, lib0) \<and>
   update_book (Some 2) 0 0 1 lib0 = Some (- EINVAL, lib0)"
proof -
  let ?r = "\<lparr>book_id = 0, name = strncpy ''A journey of linux kernel'' 64,
              author = strncpy ''Tom Hoter'' 64, borrow = 1\<rparr>"
  have p: "published lib0 = Some [?r]"
    by (simp add: lib0_def add_book_def list_rcu_init_def kzalloc_def list_add_rcu_def
        published_def zero_book_def)
  have a: "(5::cint) \<notin> book_id ` set [?r]" by simp
  have b: "find (\<lambda>r. book_id r = 0) [?r] = Some ?r \<and> borrow ?r = 1" by simp
  from update_book_failure_unchanged [OF p, of 5 "Some 2" 0 1] a
  have "update_book (Some 2) 5 0 1 lib0 = Some (- EINVAL, lib0)" by blast
  moreover from update_book_failure_unchanged [OF p, of 0 "Some 2" 0 1] b
  have "update_book (Some 2) 0 0 1 lib0 = Some (- EINVAL, lib0)" by blast
  ultimately show ?thesis by simp
qed

text \<open>
  Claim C3, as stated, fails: on the library holding book 0 (borrowed),
  \<^verbatim>\<open>update_book(5, 0, 1)\<close> finds no record and \<^verbatim>\<open>update_book(0, 0, 1)\<close> finds the
  record already in the requested status, and both return \<^verbatim>\<open>-EINVAL\<close>.
\<close>

theorem update_book_noop_notfound_same_value:
  "print_book 5 lib0 = Some None \<and>
   book_is_borrow 0 lib0 = Some 1 \<and>
   map_option fst (update_book (Some 2) 5 0 1 lib0) = Some (- EINVAL) \<and>
   map_option fst (update_book (Some 2) 0 0 1 lib0) = Some (- EINVAL)"
  by (simp add: lib0_def add_book_def list_rcu_init_def kzalloc_def list_add_rcu_def
      update_book_def print_book_def book_is_borrow_def zero_book_def)

text \<open>
  Claim C3, amended. \<^verbatim>\<open>update_book\<close> returns one of the three values 0, \<^verbatim>\<open>-EINVAL\<close>
  and \<^verbatim>\<open>-ENOMEM\<close>, which are pairwise different, and it returns \<^verbatim>\<open>-EINVAL\<close> exactly
  when the key is absent or the first record with the key already has the requested
  status: the value tells these two failures from success and from a failed
  allocation, and not from each other.
\<close>

theorem update_book_return_values:
  assumes "published s = Some rs"
  shows "\<exists>v s'. update_book new_b bid async bborrow s = Some (v, s') \<and>
           (v = 0 \<or> v = - EINVAL \<or> v = - ENOMEM) \<and>
           - EINVAL \<noteq> (0::cint) \<and> - EINVAL \<noteq> - ENOMEM \<and> - ENOMEM \<noteq> (0::cint) \<and>
           (v = - EINVAL \<longleftrightarrow>
              bid \<notin> book_id ` set rs \<or>
              (\<exists>r. find (\<lambda>r. book_id r = bid) rs = Some r \<and> borrow r = bborrow))"
proof -
  from find_book_cases [OF assms [unfolded published_def], of bid]
  show ?thesis
  proof
    assume "bid \<notin> book_id ` set rs \<and> find_book (heap s) (books s) bid = Some None"
    then have "bid \<notin> book_id ` set rs" by simp
    moreover from assms this
    have "update_book new_b bid async bborrow s = Some (- EINVAL, s)"
      by (rule absent_results)
    ultimately show ?thesis by (simp add: EINVAL_def ENOMEM_def)
  next
    assume "\<exists>pre r post. rs = pre @ r # post \<and> book_id r = bid \<and> bid \<notin> book_id ` set pre"
    then obtain pre r post where rs: "rs = pre @ r # post" and r: "book_id r = bid"
      and pre: "bid \<notin> book_id ` set pre" by blast
    note pub = assms [unfolded rs]
    from pre have "\<forall>x\<in>set pre. book_id x \<noteq> bid" by blast
    with r have f: "find (\<lambda>r. book_id r = bid) rs = Some r"
      unfolding rs by (rule find_first)
    have "bid \<in> book_id ` set rs" using rs r by auto
    show ?thesis
    proof (cases "borrow r = bborrow")
      case True
      with pub r pre have "update_book new_b bid async bborrow s = Some (- EINVAL, s)"
        by (rule update_book_noop)
      with f True show ?thesis by (simp add: EINVAL_def ENOMEM_def)
    next
      case False
      show ?thesis
      proof (cases new_b)
        case None
        from update_book_nomem [OF pub r pre False, of async] None
        have "update_book new_b bid async bborrow s = Some (- ENOMEM, s)" by simp
        with f False \<open>bid \<in> book_id ` set rs\<close> show ?thesis
          by (simp add: EINVAL_def ENOMEM_def)
      next
        case (Some p)
        from update_book_value [OF pub r pre False, of p async] Some
        obtain s' where "update_book new_b bid async bborrow s = Some (0, s')" by auto
        with f False \<open>bid \<in> book_id ` set rs\<close> show ?thesis
          by (simp add: EINVAL_def ENOMEM_def)
      qed
    qed
  qed
qed

theorem update_book_return_values_witness:
  "\<exists>v s'. update_book (Some 2) 0 0 0 lib0 = Some (v, s') \<and>
           (v = 0 \<or> v = - EINVAL \<or> v = - ENOMEM) \<and>
           - EINVAL \<noteq> (0::cint) \<and> - EINVAL \<noteq> - ENOMEM \<and> - ENOMEM \<noteq> (0::cint) \<and>
           (v = - EINVAL \<longleftrightarrow>
              0 \<notin> book_id ` set [\<lparr>book_id = 0, name = strncpy ''A journey of linux kernel'' 64,
                                      author = strncpy ''Tom Hoter'' 64, borrow = 1\<rparr>] \<or>
              (\<exists>r. find (\<lambda>r. book_id r = 0)
                     [\<lparr>book_id = 0, name = strncpy ''A journey of linux kernel'' 64,
                       author = strncpy ''Tom Hoter'' 64, borrow = 1\<rparr>] = Some r \<and> borrow r = 0))"
proof -
  have p: "published lib0 = Some [\<lparr>book_id = 0, name = strncpy ''A journey of linux kernel'' 64,
              author = strncpy ''Tom Hoter'' 64, borrow = 1\<rparr>]"
    by (simp add: lib0_def add_book_def list_rcu_init_def kzalloc_def list_add_rcu_def
        published_def zero_book_def)
  show ?thesis by (rule update_book_return_values [OF p])
qed

text \<open>
  Claim C4, as stated, fails: \<^verbatim>\<open>add_book\<close> links the new node with \<^verbatim>\<open>list_add_rcu\<close>,
  right behind the list head. After \<^verbatim>\<open>add_book(0, ...)\<close> and \<^verbatim>\<open>add_book(1, ...)\<close>, a
  traversal visits book 1 first and book 0 last.
\<close>

theorem add_book_not_at_tail:
  "fst (add_book (Some 2) 1 ''Inside Linux Kernel'' ''Steve Jobs'' lib0) = 0 \<and>
   map_option (map book_id) (published lib0) = Some [0] \<and>
   map_option (map book_id)
     (published (snd (add_book (Some 2) 1 ''Inside Linux Kernel'' ''Steve Jobs'' lib0))) =
     Some [1, 0]"
  by (simp add: lib0_def add_book_def list_rcu_init_def kzalloc_def list_add_rcu_def
      published_def zero_book_def)

text \<open>
  Claim C4, amended. A successful \<^verbatim>\<open>add_book(id, name, author)\<close> puts the new record
  at the head of the traversal order: it is the first record a full traversal
  visits, and the records published before follow it in their old order.
\<close>

theorem add_book_at_head:
  assumes "lib_inv s" "published s = Some rs" "fresh new_book s"
    and "add_book new_book bid bname bauthor s = (0, s')"
  shows "published s' = Some (\<lparr>book_id = bid, name = strncpy bname 64,
                                author = strncpy bauthor 64, borrow = 1\<rparr> # rs)"
proof (cases new_book)
  case None
  with assms(4) show ?thesis by (simp add: add_book_def ENOMEM_def)
next
  case (Some p)
  with assms(3) have "heap s p = None" by (simp add: fresh_def)
  from add_book_ok [OF assms(1,2) this, of bid bname bauthor] assms(4) Some
  show ?thesis by auto
qed

theorem add_book_at_head_witness:
  "lib_inv lib0 \<and> fresh (Some 2) lib0 \<and>
   add_book (Some 2) 1 ''Inside Linux Kernel'' ''Steve Jobs'' lib0 = (0, lib01) \<and>
   published lib0 =
     Some [\<lparr>book_id = 0, name = strncpy ''A journey of linux kernel'' 64,
             author = strncpy ''Tom Hoter'' 64, borrow = 1\<rparr>] \<and>
   published lib01 =
     Some [\<lparr>book_id = 1, name = strncpy ''Inside Linux Kernel'' 64,
             author = strncpy ''Steve Jobs'' 64, borrow = 1\<rparr>,
           \<lparr>book_id = 0, name = strncpy ''A journey of linux kernel'' 64,
             author = strncpy ''Tom Hoter'' 64, borrow = 1\<rparr>]"
proof -
  have h1: "lib_inv lib0" by (rule lib0_eval)
  have h2: "published lib0 =
     Some [\<lparr>book_id = 0, name = strncpy ''A journey of linux kernel'' 64,
             author = strncpy ''Tom Hoter'' 64, borrow = 1\<rparr>]"
    by (simp add: lib0_def add_book_def list_rcu_init_def kzalloc_def list_add_rcu_def
        published_def zero_book_def)
  have h3: "fresh (Some 2) lib0" by (simp add: fresh_def lib0_eval)
  have h4: "add_book (Some 2) 1 ''Inside Linux Kernel'' ''Steve Jobs'' lib0 = (0, lib01)"
    by (simp add: lib01_def add_book_def Let_def)
  from add_book_at_head [OF h1 h2 h3 h4] h1 h2 h3 h4 show ?thesis by simp
qed

text \<open>
  Claim C5, as stated, fails: \<^verbatim>\<open>add_book\<close> does not look for the id in the list. On the
  library holding book 0 alone, a second \<^verbatim>\<open>add_book(0, ...)\<close> succeeds and leaves two
  published records with id 0.
\<close>

theorem add_book_duplicate_id:
  "lib_inv lib0 \<and> unique_ids lib0 \<and> fresh (Some 2) lib0 \<and>
   fst (add_book (Some 2) 0 ''Inside Linux Kernel'' ''Steve Jobs'' lib0) = 0 \<and>
   \<not> unique_ids (snd (add_book (Some 2) 0 ''Inside Linux Kernel'' ''Steve Jobs'' lib0))"
  by (simp add: lib0_def add_book_def list_rcu_init_def kzalloc_def list_add_rcu_def
      published_def unique_ids_def lib_inv_def fresh_def zero_book_def)

text \<open>
  Claim C5, amended. From a well-formed state in which at most one published
  record has any given id, \<^verbatim>\<open>update_book\<close> and \<^verbatim>\<open>delete_book\<close> return a state with
  the same property, whatever their outcome, and \<^verbatim>\<open>book_is_borrow\<close> returns a value
  and no state. \<^verbatim>\<open>add_book\<close> keeps the list well formed; when its allocation
  succeeds it returns 0 and publishes a record with the inserted id in front of the
  old records, so the state it returns has the property exactly when no published
  record had the inserted id: inserting an id that is already published leaves two
  published records with that id. When its allocation fails the state is unchanged.
\<close>

theorem unique_ids_preserved:
  assumes inv: "lib_inv s" and u: "unique_ids s" and new: "fresh new s"
    and pub: "published s = Some rs"
  shows "(\<exists>v s'. update_book new bid async bborrow s = Some (v, s') \<and> lib_inv s' \<and> unique_ids s') \<and>
         (\<exists>v s'. delete_book bid async s = Some (v, s') \<and> lib_inv s' \<and> unique_ids s') \<and>
         (\<exists>v. book_is_borrow bid s = Some v) \<and>
         lib_inv (snd (add_book new bid bname bauthor s)) \<and>
         (bid \<notin> book_id ` set rs \<longrightarrow> unique_ids (snd (add_book new bid bname bauthor s))) \<and>
         (new = None \<longrightarrow> add_book new bid bname bauthor s = (- ENOMEM, s)) \<and>
         (new \<noteq> None \<longrightarrow>
            fst (add_book new bid bname bauthor s) = 0 \<and>
            (\<exists>r. published (snd (add_book new bid bname bauthor s)) = Some (r # rs) \<and>
                 book_id r = bid) \<and>
            (unique_ids (snd (add_book new bid bname bauthor s)) \<longleftrightarrow>
               bid \<notin> book_id ` set rs))"
proof -
  from u pub have d: "distinct (map book_id rs)" by (simp add: unique_ids_def)
  have q: "\<exists>v. book_is_borrow bid s = Some v"
    using book_is_borrow_published [OF pub] by simp
  have n: "add_book new bid bname bauthor s = (- ENOMEM, s)" if "new = None"
    using that by (simp add: add_book_def)
  have a: "fst (add_book new bid bname bauthor s) = 0 \<and>
           lib_inv (snd (add_book new bid bname bauthor s)) \<and>
           (\<exists>r. published (snd (add_book new bid bname bauthor s)) = Some (r # rs) \<and>
                book_id r = bid) \<and>
           (unique_ids (snd (add_book new bid bname bauthor s)) \<longleftrightarrow>
              bid \<notin> book_id ` set rs)" if "new \<noteq> None"
  proof -
    from that obtain p where p: "new = Some p" by blast
    with new have "heap s p = None" by (simp add: fresh_def)
    from add_book_ok [OF inv pub this, of bid bname bauthor]
    obtain s' where run: "add_book (Some p) bid bname bauthor s = (0, s')"
      and pub': "published s' =
        Some (\<lparr>book_id = bid, name = strncpy bname 64,
                author = strncpy bauthor 64, borrow = 1\<rparr> # rs)"
      and inv': "lib_inv s'" by blast
    from pub' d have "unique_ids s' \<longleftrightarrow> bid \<notin> book_id ` set rs"
      by (simp add: unique_ids_def)
    with run pub' inv' p show ?thesis by simp
  qed
  have i: "lib_inv (snd (add_book new bid bname bauthor s))"
    using n a inv by (cases "new = None") simp_all
  have k: "unique_ids (snd (add_book new bid bname bauthor s))" if "bid \<notin> book_id ` set rs"
    using n a u that by (cases "new = None") simp_all
  from find_book_cases [OF pub [unfolded published_def], of bid]
  have "(\<exists>v s'. update_book new bid async bborrow s = Some (v, s') \<and> lib_inv s' \<and> unique_ids s') \<and>
        (\<exists>v s'. delete_book bid async s = Some (v, s') \<and> lib_inv s' \<and> unique_ids s')"
  proof
    assume "bid \<notin> book_id ` set rs \<and> find_book (heap s) (books s) bid = Some None"
    then have "bid \<notin> book_id ` set rs" by simp
    from absent_results(3,4) [OF pub this] inv u show ?thesis by metis
  next
    assume "\<exists>pre r post. rs = pre @ r # post \<and> book_id r = bid \<and> bid \<notin> book_id ` set pre"
    then obtain pre r post where rs: "rs = pre @ r # post" and r: "book_id r = bid"
      and pre: "bid \<notin> book_id ` set pre" by blast
    note pub' = pub [unfolded rs]
    from delete_book_ok [OF inv pub' r pre, of async]
    obtain s' where "delete_book bid async s = Some (0, s')" "published s' = Some (pre @ post)"
      "lib_inv s'" by blast
    moreover from this(2) d have "unique_ids s'" by (simp add: unique_ids_def rs)
    ultimately have del: "\<exists>v s'. delete_book bid async s = Some (v, s') \<and> lib_inv s' \<and> unique_ids s'"
      by blast
    have "\<exists>v s'. update_book new bid async bborrow s = Some (v, s') \<and> lib_inv s' \<and> unique_ids s'"
    proof (cases "borrow r = bborrow")
      case True
      from update_book_noop [OF pub' r pre True] inv u show ?thesis by metis
    next
      case False
      show ?thesis
      proof (cases new)
        case None
        from update_book_nomem [OF pub' r pre False] None inv u show ?thesis by metis
      next
        case (Some p)
        with new have "heap s p = None" by (simp add: fresh_def)
        from update_book_ok [OF inv pub' r pre False this, of async]
        obtain s' where "update_book (Some p) bid async bborrow s = Some (0, s')"
          "published s' = Some (pre @ r\<lparr>borrow := bborrow\<rparr> # post)" "lib_inv s'" by blast
        moreover from this(2) d have "unique_ids s'" by (simp add: unique_ids_def rs)
        ultimately show ?thesis using Some by blast
      qed
    qed
    with del show ?thesis by simp
  qed
  with q i k n a show ?thesis by blast
qed

theorem unique_ids_preserved_witness:
  "lib_inv lib01 \<and> unique_ids lib01 \<and> fresh (Some 3) lib01 \<and>
   (\<exists>v s'. update_book (Some 3) 0 1 0 lib01 = Some (v, s') \<and> lib_inv s' \<and> unique_ids s') \<and>
   (\<exists>v s'. delete_book 0 1 lib01 = Some (v, s') \<and> lib_inv s' \<and> unique_ids s') \<and>
   (\<exists>v. book_is_borrow 0 lib01 = Some v) \<and>
   fst (add_book (Some 3) 2 ''C'' ''D'' lib01) = 0 \<and>
   unique_ids (snd (add_book (Some 3) 2 ''C'' ''D'' lib01)) \<and>
   fst (add_book (Some 3) 0 ''C'' ''D'' lib01) = 0 \<and>
   lib_inv (snd (add_book (Some 3) 0 ''C'' ''D'' lib01)) \<and>
   \<not> unique_ids (snd (add_book (Some 3) 0 ''C'' ''D'' lib01)) \<and>
   map_option (map book_id) (published (snd (add_book (Some 3) 0 ''C'' ''D'' lib01))) =
     Some [0, 1, 0] \<and>
   add_book None 0 ''C'' ''D'' lib01 = (- ENOMEM, lib01)"
proof -
  let ?r0 = "\<lparr>book_id = 0, name = strncpy ''A journey of linux kernel'' 64,
               author = strncpy ''Tom Hoter'' 64, borrow = 1\<rparr>"
  let ?r1 = "\<lparr>book_id = 1, name = strncpy ''Inside Linux Kernel'' 64,
               author = strncpy ''Steve Jobs'' 64, borrow = 1\<rparr>"
  note ev = lib01_def lib0_def add_book_def list_rcu_init_def kzalloc_def list_add_rcu_def
    zero_book_def
  have h1: "lib_inv lib01" by (simp add: ev lib_inv_def)
  have h4: "published lib01 = Some [?r1, ?r0]" by (simp add: ev published_def)
  have h2: "unique_ids lib01" by (simp add: unique_ids_def h4)
  have h3: "fresh (Some 3) lib01" by (simp add: ev fresh_def)
  have h3': "fresh None lib01" by (simp add: fresh_def)
  have a: "(2::cint) \<notin> book_id ` set [?r1, ?r0]" by simp
  have b: "(0::cint) \<in> book_id ` set [?r1, ?r0]" by simp
  have c: "Some (3::nat) \<noteq> None" by simp
  from unique_ids_preserved [OF h1 h2 h3 h4, of 0 1 0 "''C''" "''D''"] b c
  have 1: "(\<exists>v s'. update_book (Some 3) 0 1 0 lib01 = Some (v, s') \<and> lib_inv s' \<and> unique_ids s') \<and>
   (\<exists>v s'. delete_book 0 1 lib01 = Some (v, s') \<and> lib_inv s' \<and> unique_ids s') \<and>
   (\<exists>v. book_is_borrow 0 lib01 = Some v) \<and>
   fst (add_book (Some 3) 0 ''C'' ''D'' lib01) = 0 \<and>
   lib_inv (snd (add_book (Some 3) 0 ''C'' ''D'' lib01)) \<and>
   \<not> unique_ids (snd (add_book (Some 3) 0 ''C'' ''D'' lib01))" by blast
  from unique_ids_preserved [OF h1 h2 h3 h4, of 2 0 0 "''C''" "''D''"] a c
  have 2: "fst (add_book (Some 3) 2 ''C'' ''D'' lib01) = 0 \<and>
   unique_ids (snd (add_book (Some 3) 2 ''C'' ''D'' lib01))" by blast
  from unique_ids_preserved [OF h1 h2 h3' h4, of 0 0 0 "''C''" "''D''"]
  have 3: "add_book None 0 ''C'' ''D'' lib01 = (- ENOMEM, lib01)" by blast
  have 4: "map_option (map book_id) (published (snd (add_book (Some 3) 0 ''C'' ''D'' lib01))) =
     Some [0, 1, 0]" by (simp add: ev published_def)
  from 1 2 3 4 h1 h2 h3 show ?thesis by blast
qed

text \<open>
  Claim C6, as stated, fails where two published records share the key: after
  \<^verbatim>\<open>add_book(0, ...)\<close> twice, \<^verbatim>\<open>delete_book(0, 0)\<close> returns 0 and unlinks the first of
  the two, and \<^verbatim>\<open>book_is_borrow(0)\<close> then returns the status 1 of the other, not
  \<open>- 1\<close>.
\<close>

theorem delete_book_leaves_duplicate:
  "map_option (map book_id) (published lib00) = Some [0, 0] \<and>
   map_option fst (delete_book 0 0 lib00) = Some 0 \<and>
   book_is_borrow 0 (snd (the (delete_book 0 0 lib00))) = Some 1"
  by (simp add: lib00_def lib0_def add_book_def list_rcu_init_def kzalloc_def list_add_rcu_def
      delete_book_def list_del_rcu_def kfree_def synchronize_rcu_def book_is_borrow_def
      published_def zero_book_def)

text \<open>
  Claim C6, amended. If no published record has key \<open>id\<close>, \<^verbatim>\<open>delete_book\<close> returns
  \<open>- 1\<close> and the state unchanged. Otherwise it returns 0 and unlinks exactly the
  first record with that key; \<^verbatim>\<open>book_is_borrow\<close> then returns what it returned
  before for every other key, and returns \<open>- 1\<close> for \<open>id\<close> provided no other published
  record carried that key.
\<close>

theorem delete_book_frame:
  assumes inv: "lib_inv s" and pub: "published s = Some rs"
  shows "(bid \<notin> book_id ` set rs \<longrightarrow> delete_book bid async s = Some (- 1, s)) \<and>
         (bid \<in> book_id ` set rs \<longrightarrow>
            (\<exists>s' pre r post.
               delete_book bid async s = Some (0, s') \<and>
               rs = pre @ r # post \<and> book_id r = bid \<and> bid \<notin> book_id ` set pre \<and>
               published s' = Some (pre @ post) \<and>
               (\<forall>k. k \<noteq> bid \<longrightarrow> book_is_borrow k s' = book_is_borrow k s) \<and>
               (bid \<notin> book_id ` set post \<longrightarrow> book_is_borrow bid s' = Some (- 1))))"
proof (intro conjI impI)
  assume "bid \<notin> book_id ` set rs"
  with pub show "delete_book bid async s = Some (- 1, s)" by (rule absent_results)
next
  assume "bid \<in> book_id ` set rs"
  with find_book_cases [OF pub [unfolded published_def], of bid]
  obtain pre r post where rs: "rs = pre @ r # post" and r: "book_id r = bid"
    and pre: "bid \<notin> book_id ` set pre" by blast
  from delete_book_ok [OF inv pub [unfolded rs] r pre, of async]
  obtain s' where run: "delete_book bid async s = Some (0, s')"
    and pub': "published s' = Some (pre @ post)" by blast
  have other: "book_is_borrow k s' = book_is_borrow k s" if "k \<noteq> bid" for k
  proof -
    from that r have "\<not> book_id r = k" by simp
    then have "find (\<lambda>x. book_id x = k) (pre @ r # post) = find (\<lambda>x. book_id x = k) (pre @ post)"
      by (rule find_skip_other)
    then show ?thesis
      by (simp add: book_is_borrow_published [OF pub'] book_is_borrow_published [OF pub] rs)
  qed
  have gone: "book_is_borrow bid s' = Some (- 1)" if "bid \<notin> book_id ` set post"
  proof -
    from that pre have "bid \<notin> book_id ` set (pre @ post)" by auto
    with pub' show ?thesis by (rule absent_results)
  qed
  from run rs r pre pub' other gone
  show "\<exists>s' pre r post.
               delete_book bid async s = Some (0, s') \<and>
               rs = pre @ r # post \<and> book_id r = bid \<and> bid \<notin> book_id ` set pre \<and>
               published s' = Some (pre @ post) \<and>
               (\<forall>k. k \<noteq> bid \<longrightarrow> book_is_borrow k s' = book_is_borrow k s) \<and>
               (bid \<notin> book_id ` set post \<longrightarrow> book_is_borrow bid s' = Some (- 1))"
    by blast
qed

theorem delete_book_frame_witness:
  "delete_book 5 0 lib01 = Some (- 1, lib01) \<and>
   (\<exists>s' pre r post.
      delete_book 0 0 lib01 = Some (0, s') \<and>
      [\<lparr>book_id = 1, name = strncpy ''Inside Linux Kernel'' 64,
         author = strncpy ''Steve Jobs'' 64, borrow = 1\<rparr>,
       \<lparr>book_id = 0, name = strncpy ''A journey of linux kernel'' 64,
         author = strncpy ''Tom Hoter'' 64, borrow = 1\<rparr>] = pre @ r # post \<and>
      book_id r = 0 \<and> 0 \<notin> book_id ` set pre \<and>
      published s' = Some (pre @ post) \<and>
      (\<forall>k. k \<noteq> 0 \<longrightarrow> book_is_borrow k s' = book_is_borrow k lib01) \<and>
      (0 \<notin> book_id ` set post \<longrightarrow> book_is_borrow 0 s' = Some (- 1)))"
proof -
  let ?r0 = "\<lparr>book_id = 0, name = strncpy ''A journey of linux kernel'' 64,
               author = strncpy ''Tom Hoter'' 64, borrow = 1\<rparr>"
  let ?r1 = "\<lparr>book_id = 1, name = strncpy ''Inside Linux Kernel'' 64,
               author = strncpy ''Steve Jobs'' 64, borrow = 1\<rparr>"
  have h1: "lib_inv lib01"
    by (simp add: lib01_def lib0_def add_book_def list_rcu_init_def kzalloc_def
        list_add_rcu_def lib_inv_def)
  have h2: "published lib01 = Some [?r1, ?r0]"
    by (simp add: lib01_def lib0_def add_book_def list_rcu_init_def kzalloc_def
        list_add_rcu_def published_def zero_book_def)
  have a: "(5::cint) \<notin> book_id ` set [?r1, ?r0]" by simp
  have b: "(0::cint) \<in> book_id ` set [?r1, ?r0]" by simp
  from delete_book_frame [OF h1 h2, of 5 0] a
  have "delete_book 5 0 lib01 = Some (- 1, lib01)" by blast
  moreover from delete_book_frame [OF h1 h2, of 0 0] b
  have "\<exists>s' pre r post.
      delete_book 0 0 lib01 = Some (0, s') \<and>
      [?r1, ?r0] = pre @ r # post \<and>
      book_id r = 0 \<and> 0 \<notin> book_id ` set pre \<and>
      published s' = Some (pre @ post) \<and>
      (\<forall>k. k \<noteq> 0 \<longrightarrow> book_is_borrow k s' = book_is_borrow k lib01) \<and>
      (0 \<notin> book_id ` set post \<longrightarrow> book_is_borrow 0 s' = Some (- 1))" by blast
  ultimately show ?thesis by blast
qed

text \<open>
  Claim C7. A record made by a successful \<^verbatim>\<open>add_book\<close> has \<^verbatim>\<open>borrow = 1\<close> (borrowed,
  not available), and \<^verbatim>\<open>book_is_borrow(id)\<close> right after it returns 1.
\<close>

theorem add_book_initial_status:
  assumes inv: "lib_inv s" and new: "fresh new_book s"
    and run: "add_book new_book bid bname bauthor s = (0, s')"
  shows "book_is_borrow bid s' = Some 1 \<and>
         (\<exists>r rs. published s' = Some (r # rs) \<and> published s = Some rs \<and>
                 book_id r = bid \<and> borrow r = 1)"
proof -
  from inv obtain rs where pub: "published s = Some rs"
    using lib_inv_published by blast
  let ?r = "\<lparr>book_id = bid, name = strncpy bname 64, author = strncpy bauthor 64, borrow = 1\<rparr>"
  have pub': "published s' = Some ([] @ ?r # rs)"
  proof (cases new_book)
    case None
    with run show ?thesis by (simp add: add_book_def ENOMEM_def)
  next
    case (Some p)
    with new have "heap s p = None" by (simp add: fresh_def)
    from add_book_ok [OF inv pub this, of bid bname bauthor] run Some
    show ?thesis by auto
  qed
  then have "book_is_borrow bid s' = Some (borrow ?r)"
    by (rule book_is_borrow_first) simp_all
  with pub' pub show ?thesis by simp
qed

theorem add_book_initial_status_witness:
  "book_is_borrow 0 lib00 = Some 1 \<and>
   (\<exists>r rs. published lib00 = Some (r # rs) \<and> published lib0 = Some rs \<and>
           book_id r = 0 \<and> borrow r = 1)"
proof -
  have h1: "lib_inv lib0" by (rule lib0_eval)
  have h2: "fresh (Some 2) lib0" by (simp add: fresh_def lib0_eval)
  have h3: "add_book (Some 2) 0 ''Inside Linux Kernel'' ''Steve Jobs'' lib0 = (0, lib00)"
    by (simp add: lib00_def add_book_def Let_def)
  show ?thesis by (rule add_book_initial_status [OF h1 h2 h3])
qed

text \<open>
  Claim C8, as stated, fails when the allocation inside \<^verbatim>\<open>update_book\<close> fails: after
  the successful \<^verbatim>\<open>add_book(0, ...)\<close> that gives \<open>lib0\<close>, \<^verbatim>\<open>update_book(0, 0, 0)\<close> with
  \<^verbatim>\<open>kzalloc\<close> returning \<^verbatim>\<open>NULL\<close> returns \<^verbatim>\<open>-ENOMEM\<close> and leaves the state as it was, and
  \<^verbatim>\<open>book_is_borrow(0)\<close> returns 1, not the requested 0.
\<close>

theorem update_book_nomem_keeps_status:
  "add_book (Some 1) 0 ''A journey of linux kernel'' ''Tom Hoter'' list_rcu_init = (0, lib0) \<and>
   update_book None 0 0 0 lib0 = Some (- ENOMEM, lib0) \<and>
   book_is_borrow 0 lib0 = Some 1"
  by (simp add: lib0_def add_book_def list_rcu_init_def kzalloc_def list_add_rcu_def
      update_book_def book_is_borrow_def zero_book_def)

text \<open>
  Claim C8, amended. After a successful \<^verbatim>\<open>add_book(id, ...)\<close>, the call
  \<^verbatim>\<open>update_book(id, async, borrow)\<close> returns 0, \<^verbatim>\<open>-EINVAL\<close> or \<^verbatim>\<open>-ENOMEM\<close>. It returns
  \<^verbatim>\<open>-EINVAL\<close> exactly when \<open>borrow\<close> is the initial status 1, and 0 exactly when
  \<open>borrow\<close> is another value and the allocation succeeds; in both cases
  \<^verbatim>\<open>book_is_borrow(id)\<close> then returns \<open>borrow\<close>. It returns \<^verbatim>\<open>-ENOMEM\<close> exactly when
  \<open>borrow\<close> is another value and the allocation fails; the state is then unchanged
  and \<^verbatim>\<open>book_is_borrow(id)\<close> returns the initial status 1.
\<close>

theorem no_lost_update:
  assumes inv: "lib_inv s" and new: "fresh new_book s"
    and add: "add_book new_book bid bname bauthor s = (0, s1)"
    and new': "fresh new_b s1"
  shows "\<exists>v s2. update_book new_b bid async bborrow s1 = Some (v, s2) \<and>
           (v = 0 \<or> v = - EINVAL \<or> v = - ENOMEM) \<and>
           (v = - EINVAL \<longleftrightarrow> bborrow = 1) \<and>
           (v = 0 \<longleftrightarrow> bborrow \<noteq> 1 \<and> new_b \<noteq> None) \<and>
           (v = - ENOMEM \<longleftrightarrow> bborrow \<noteq> 1 \<and> new_b = None) \<and>
           (v = 0 \<or> v = - EINVAL \<longrightarrow> book_is_borrow bid s2 = Some bborrow) \<and>
           (v = - ENOMEM \<longrightarrow> s2 = s1 \<and> book_is_borrow bid s2 = Some 1)"
proof -
  from inv obtain rs where pub: "published s = Some rs"
    using lib_inv_published by blast
  let ?r = "\<lparr>book_id = bid, name = strncpy bname 64, author = strncpy bauthor 64, borrow = 1\<rparr>"
  have "published s1 = Some ([] @ ?r # rs) \<and> lib_inv s1"
  proof (cases new_book)
    case None
    with add show ?thesis by (simp add: add_book_def ENOMEM_def)
  next
    case (Some p)
    with new have "heap s p = None" by (simp add: fresh_def)
    from add_book_ok [OF inv pub this, of bid bname bauthor] add Some
    show ?thesis by auto
  qed
  then have pub1: "published s1 = Some ([] @ ?r # rs)" and inv1: "lib_inv s1" by simp_all
  have r: "book_id ?r = bid" and pre: "bid \<notin> book_id ` set []" by simp_all
  from book_is_borrow_first [OF pub1 r pre]
  have q1: "book_is_borrow bid s1 = Some 1" by simp
  show ?thesis
  proof (cases "borrow ?r = bborrow")
    case True
    from update_book_noop [OF pub1 r pre True]
    have "update_book new_b bid async bborrow s1 = Some (- EINVAL, s1)" .
    with q1 True show ?thesis by (simp add: EINVAL_def ENOMEM_def)
  next
    case False
    show ?thesis
    proof (cases new_b)
      case None
      from update_book_nomem [OF pub1 r pre False, of async] None
      have "update_book new_b bid async bborrow s1 = Some (- ENOMEM, s1)" by simp
      with q1 False None show ?thesis by (simp add: EINVAL_def ENOMEM_def)
    next
      case (Some p)
      with new' have "heap s1 p = None" by (simp add: fresh_def)
      from update_book_ok [OF inv1 pub1 r pre False this, of async]
      obtain s2 where run: "update_book (Some p) bid async bborrow s1 = Some (0, s2)"
        and pub2: "published s2 = Some ([] @ ?r\<lparr>borrow := bborrow\<rparr> # rs)" by blast
      from pub2 have "book_is_borrow bid s2 = Some (borrow (?r\<lparr>borrow := bborrow\<rparr>))"
        by (rule book_is_borrow_first) simp_all
      with run Some False show ?thesis by (simp add: EINVAL_def ENOMEM_def)
    qed
  qed
qed

theorem no_lost_update_witness:
  "lib_inv lib0 \<and> fresh (Some 2) lib0 \<and>
   add_book (Some 2) 1 ''Inside Linux Kernel'' ''Steve Jobs'' lib0 = (0, lib01) \<and>
   fresh (Some 3) lib01 \<and>
   (\<exists>s2. update_book (Some 3) 1 0 0 lib01 = Some (0, s2) \<and> book_is_borrow 1 s2 = Some 0) \<and>
   (\<exists>s2. update_book (Some 3) 1 1 7 lib01 = Some (0, s2) \<and> book_is_borrow 1 s2 = Some 7) \<and>
   (\<exists>s2. update_book (Some 3) 1 0 1 lib01 = Some (- EINVAL, s2) \<and>
         book_is_borrow 1 s2 = Some 1) \<and>
   update_book None 1 0 0 lib01 = Some (- ENOMEM, lib01) \<and>
   book_is_borrow 1 lib01 = Some 1"
proof -
  note ev = lib01_def lib0_def add_book_def list_rcu_init_def kzalloc_def list_add_rcu_def
  have h1: "lib_inv lib0" by (rule lib0_eval)
  have h2: "fresh (Some 2) lib0" by (simp add: fresh_def lib0_eval)
  have h3: "add_book (Some 2) 1 ''Inside Linux Kernel'' ''Steve Jobs'' lib0 = (0, lib01)"
    by (simp add: lib01_def add_book_def Let_def)
  have h4: "fresh (Some 3) lib01" by (simp add: ev fresh_def)
  have h4': "fresh None lib01" by (simp add: fresh_def)
  from no_lost_update [where async = 0 and bborrow = 0, OF h1 h2 h3 h4]
  have 1: "\<exists>s2. update_book (Some 3) 1 0 0 lib01 = Some (0, s2) \<and> book_is_borrow 1 s2 = Some 0"
    by auto
  from no_lost_update [where async = 1 and bborrow = 7, OF h1 h2 h3 h4]
  have 2: "\<exists>s2. update_book (Some 3) 1 1 7 lib01 = Some (0, s2) \<and> book_is_borrow 1 s2 = Some 7"
    by auto
  from no_lost_update [where async = 0 and bborrow = 1, OF h1 h2 h3 h4]
  have 3: "\<exists>s2. update_book (Some 3) 1 0 1 lib01 = Some (- EINVAL, s2) \<and>
         book_is_borrow 1 s2 = Some 1"
    by auto
  from no_lost_update [where async = 0 and bborrow = 0, OF h1 h2 h3 h4']
  have 4: "update_book None 1 0 0 lib01 = Some (- ENOMEM, lib01) \<and>
           book_is_borrow 1 lib01 = Some 1"
    by auto
  from 1 2 3 4 h1 h2 h3 h4 show ?thesis by blast
qed

text \<open>
  Claim C10. Let \<open>r\<close> be the first published record with key \<open>id\<close>: the records \<open>pre\<close>
  before it have other keys, the records \<open>post\<close> after it may or may not repeat the
  key. Then \<^verbatim>\<open>book_is_borrow\<close> and \<^verbatim>\<open>print_book\<close> read \<open>r\<close>, \<^verbatim>\<open>delete_book\<close> unlinks
  \<open>r\<close>, and a successful \<^verbatim>\<open>update_book\<close> replaces \<open>r\<close>; \<open>pre\<close> and \<open>post\<close> stay as
  they are.
\<close>

theorem first_match_wins:
  assumes inv: "lib_inv s" and pub: "published s = Some (pre @ r # post)"
    and r: "book_id r = bid" and pre: "bid \<notin> book_id ` set pre"
  shows "book_is_borrow bid s = Some (borrow r) \<and>
         print_book bid s = Some (Some r) \<and>
         (\<exists>s'. delete_book bid async s = Some (0, s') \<and> published s' = Some (pre @ post)) \<and>
         (borrow r \<noteq> bborrow \<and> heap s p = None \<longrightarrow>
            (\<exists>s'. update_book (Some p) bid async bborrow s = Some (0, s') \<and>
                  published s' = Some (pre @ r\<lparr>borrow := bborrow\<rparr> # post)))"
proof (intro conjI impI)
  from pub r pre show "book_is_borrow bid s = Some (borrow r)"
    by (rule book_is_borrow_first)
  from pub r pre show "print_book bid s = Some (Some r)"
    by (rule print_book_first)
  from delete_book_ok [OF inv pub r pre, of async]
  show "\<exists>s'. delete_book bid async s = Some (0, s') \<and> published s' = Some (pre @ post)"
    by blast
next
  assume "borrow r \<noteq> bborrow \<and> heap s p = None"
  then have "borrow r \<noteq> bborrow" "heap s p = None" by simp_all
  from update_book_ok [OF inv pub r pre this, of async]
  show "\<exists>s'. update_book (Some p) bid async bborrow s = Some (0, s') \<and>
              published s' = Some (pre @ r\<lparr>borrow := bborrow\<rparr> # post)"
    by blast
qed

theorem first_match_wins_witness:
  "book_is_borrow 0 lib100 = Some 1 \<and>
   print_book 0 lib100 =
     Some (Some \<lparr>book_id = 0, name = strncpy ''Inside Linux Kernel'' 64,
                  author = strncpy ''Steve Jobs'' 64, borrow = 1\<rparr>) \<and>
   (\<exists>s'. delete_book 0 0 lib100 = Some (0, s') \<and>
         published s' =
           Some [\<lparr>book_id = 1, name = strncpy ''Inside Linux Kernel'' 64,
                   author = strncpy ''Steve Jobs'' 64, borrow = 1\<rparr>,
                 \<lparr>book_id = 0, name = strncpy ''A journey of linux kernel'' 64,
                   author = strncpy ''Tom Hoter'' 64, borrow = 1\<rparr>]) \<and>
   (\<exists>s'. update_book (Some 4) 0 0 0 lib100 = Some (0, s') \<and>
         published s' =
           Some [\<lparr>book_id = 1, name = strncpy ''Inside Linux Kernel'' 64,
                   author = strncpy ''Steve Jobs'' 64, borrow = 1\<rparr>,
                 \<lparr>book_id = 0, name = strncpy ''Inside Linux Kernel'' 64,
                   author = strncpy ''Steve Jobs'' 64, borrow = 0\<rparr>,
                 \<lparr>book_id = 0, name = strncpy ''A journey of linux kernel'' 64,
                   author = strncpy ''Tom Hoter'' 64, borrow = 1\<rparr>])"
proof -
  let ?r0 = "\<lparr>book_id = 0, name = strncpy ''A journey of linux kernel'' 64,
               author = strncpy ''Tom Hoter'' 64, borrow = 1\<rparr>"
  let ?d0 = "\<lparr>book_id = 0, name = strncpy ''Inside Linux Kernel'' 64,
               author = strncpy ''Steve Jobs'' 64, borrow = 1\<rparr>"
  let ?r1 = "\<lparr>book_id = 1, name = strncpy ''Inside Linux Kernel'' 64,
               author = strncpy ''Steve Jobs'' 64, borrow = 1\<rparr>"
  have h1: "lib_inv lib100"
    by (simp add: lib100_def lib00_def lib0_def add_book_def list_rcu_init_def kzalloc_def
        list_add_rcu_def lib_inv_def)
  have h2: "published lib100 = Some ([?r1] @ ?d0 # [?r0])"
    by (simp add: lib100_def lib00_def lib0_def add_book_def list_rcu_init_def kzalloc_def
        list_add_rcu_def published_def zero_book_def)
  have h3: "book_id ?d0 = 0" by simp
  have h4: "(0::cint) \<notin> book_id ` set [?r1]" by simp
  have h5: "borrow ?d0 \<noteq> 0 \<and> heap lib100 4 = None"
    by (simp add: lib100_def lib00_def lib0_def add_book_def list_rcu_init_def kzalloc_def
        list_add_rcu_def)
  from first_match_wins [OF h1 h2 h3 h4, of 0 0 4] h5 show ?thesis by simp
qed

end
